theory Spec2Isabelle
  imports Main "HOL-Library.AList"
begin

section \<open>Shared vocabulary: JavaScript values, exceptions, the logger\<close>

text \<open>
  The three components (state store, module loader, event bus) handle values of
  unconstrained type. The model keeps the distinctions the code's own comparisons can
  see: \<open>undefined\<close>, \<open>null\<close>, booleans, numbers (integers and the one number that is
  not equal to itself), strings, and objects, which are compared by reference.
\<close>

datatype jsval =
    VUndefined
  | VNull
  | VBool bool
  | VNum int
  | VNaN
  | VStr string
  | VRef nat

text \<open>The operator \<open>!==\<close> of the source: identity, except that \<open>NaN !== NaN\<close> is true.\<close>

definition strict_neq :: "jsval \<Rightarrow> jsval \<Rightarrow> bool" where
  "strict_neq a b = (a = VNaN \<or> b = VNaN \<or> a \<noteq> b)"

datatype exn =
    TypeError string
  | ReferenceError string
  | Error string
  | Thrown jsval

datatype level = DEBUG | INFO | WARN | ERROR

text \<open>One call of a logger method: level, message, and the error object passed along.\<close>

datatype log_entry = Log level string "exn option"

section \<open>Event bus (js/utils/events.js)\<close>

datatype target = Window | Node nat | NoTarget

record custom_event =
  ev_type :: string
  detail :: jsval
  bubbles :: bool
  cancelable :: bool

record history_entry =
  name :: string
  data :: jsval
  timestamp :: int
  time :: string

text \<open>One reading of the host clock: \<open>Date.now()\<close> and \<open>new Date().toISOString()\<close>.\<close>

record clock =
  now :: int
  isoString :: string

text \<open>
  The object \<open>{ handler, target }\<close> that \<open>on\<close> stores; \<open>listenerId\<close> is the identity of
  that object (a JavaScript \<open>Set\<close> holds objects by reference).
\<close>

record listenerData =
  handler :: nat
  target :: target
  listenerId :: nat

text \<open>
  The host: whether the \<open>CustomEvent\<close> constructor exists, and what delivering an event
  to a target returns or throws. Handlers run inside the host's dispatch; their effect
  on the bus is outside this model.
\<close>

record host =
  hasCustomEvent :: bool
  dispatchEvent :: "target \<Rightarrow> custom_event \<Rightarrow> exn + bool"

record event_manager =
  listeners :: "(string \<times> listenerData list) list"
  eventHistory :: "history_entry list"
  maxHistorySize :: nat
  domListeners :: "(target \<times> string \<times> nat) list"
  nextObject :: nat
  busLog :: "log_entry list"

definition bus_log :: "log_entry \<Rightarrow> event_manager \<Rightarrow> event_manager" where
  "bus_log e s = s\<lparr>busLog := busLog s @ [e]\<rparr>"

definition constructor :: event_manager where
  "constructor =
     bus_log (Log DEBUG ''EventManager created'' None)
       \<lparr>listeners = [], eventHistory = [], maxHistorySize = 100,
        domListeners = [], nextObject = 0, busLog = []\<rparr>"

text \<open>\<open>new CustomEvent(eventName, { detail: data, bubbles: true, cancelable: true })\<close>\<close>

definition newCustomEvent :: "host \<Rightarrow> string \<Rightarrow> jsval \<Rightarrow> exn + custom_event" where
  "newCustomEvent h eventName d =
     (if hasCustomEvent h
      then Inr \<lparr>ev_type = eventName, detail = d, bubbles = True, cancelable = True\<rparr>
      else Inl (ReferenceError ''CustomEvent is not defined''))"

text \<open>\<open>xs.slice(0, end)\<close> for an integer \<open>end\<close>; a negative end counts from the back.\<close>

definition slice0 :: "'a list \<Rightarrow> int \<Rightarrow> 'a list" where
  "slice0 xs e = (if e < 0 then take (nat (int (length xs) + e)) xs else take (nat e) xs)"

definition mkEntry :: "string \<Rightarrow> jsval \<Rightarrow> clock \<Rightarrow> history_entry" where
  "mkEntry eventName d c =
     \<lparr>name = eventName, data = d, timestamp = now c, time = isoString c\<rparr>"

definition addToHistory :: "string \<Rightarrow> jsval \<Rightarrow> clock \<Rightarrow> event_manager \<Rightarrow> event_manager" where
  "addToHistory eventName d c s =
     (let entry = mkEntry eventName d c;
          s1 = s\<lparr>eventHistory := entry # eventHistory s\<rparr>
      in if length (eventHistory s1) > maxHistorySize s1
         then s1\<lparr>eventHistory := slice0 (eventHistory s1) (int (maxHistorySize s1))\<rparr>
         else s1)"

text \<open>\<open>target.dispatchEvent(event)\<close>: a target without that method makes the call throw.\<close>

definition targetDispatch :: "host \<Rightarrow> target \<Rightarrow> custom_event \<Rightarrow> exn + bool" where
  "targetDispatch h tg event =
     (if tg = NoTarget then Inl (TypeError ''target.dispatchEvent is not a function'')
      else dispatchEvent h tg event)"

text \<open>The body of the \<open>try\<close> block of \<open>emit\<close>: what it returns or throws, and the bus it leaves.\<close>

definition emit_try ::
  "host \<Rightarrow> clock \<Rightarrow> string \<Rightarrow> jsval \<Rightarrow> target \<Rightarrow> event_manager
     \<Rightarrow> (exn + custom_event) \<times> event_manager" where
  "emit_try h c eventName d tg s =
     (case newCustomEvent h eventName d of
        Inl err \<Rightarrow> (Inl err, s)
      | Inr event \<Rightarrow>
          (let s1 = addToHistory eventName d c s
           in case targetDispatch h tg event of
                Inl err \<Rightarrow> (Inl err, s1)
              | Inr _ \<Rightarrow>
                  (Inr event, bus_log (Log DEBUG (''Event emitted: '' @ eventName) None) s1)))"

text \<open>
  \<open>emit\<close>: the result is \<open>Inl\<close> when an exception leaves the function, \<open>Inr None\<close> for
  the \<open>null\<close> of the \<open>catch\<close> block and \<open>Inr (Some event)\<close> otherwise.
\<close>

definition emit ::
  "host \<Rightarrow> clock \<Rightarrow> string \<Rightarrow> jsval \<Rightarrow> target \<Rightarrow> event_manager
     \<Rightarrow> (exn + custom_event option) \<times> event_manager" where
  "emit h c eventName d tg s =
     (case emit_try h c eventName d tg s of
        (Inr event, s1) \<Rightarrow> (Inr (Some event), s1)
      | (Inl err, s1) \<Rightarrow>
          (Inr None, bus_log (Log ERROR (''Failed to emit event: '' @ eventName) (Some err)) s1))"

text \<open>\<open>target.addEventListener\<close> and \<open>target.removeEventListener\<close> on the host's table.\<close>

definition addEventListener ::
  "target \<Rightarrow> string \<Rightarrow> nat \<Rightarrow> event_manager \<Rightarrow> exn + event_manager" where
  "addEventListener tg eventName hnd s =
     (if tg = NoTarget then Inl (TypeError ''target.addEventListener is not a function'')
      else Inr (s\<lparr>domListeners := List.insert (tg, eventName, hnd) (domListeners s)\<rparr>))"

definition removeEventListener ::
  "target \<Rightarrow> string \<Rightarrow> nat \<Rightarrow> event_manager \<Rightarrow> exn + event_manager" where
  "removeEventListener tg eventName hnd s =
     (if tg = NoTarget then Inl (TypeError ''target.removeEventListener is not a function'')
      else Inr (s\<lparr>domListeners := removeAll (tg, eventName, hnd) (domListeners s)\<rparr>))"

text \<open>\<open>on\<close> returns the registration its unsubscribe closure captures.\<close>

definition on_event ::
  "string \<Rightarrow> nat \<Rightarrow> target \<Rightarrow> event_manager \<Rightarrow> (exn + listenerData) \<times> event_manager" where
  "on_event eventName hnd tg s =
     (let registered = (case map_of (listeners s) eventName of None \<Rightarrow> [] | Some ls \<Rightarrow> ls);
          ld = \<lparr>handler = hnd, target = tg, listenerId = nextObject s\<rparr>;
          s1 = s\<lparr>nextObject := Suc (nextObject s),
                 listeners := AList.update eventName (registered @ [ld]) (listeners s)\<rparr>
      in case addEventListener tg eventName hnd s1 of
           Inl err \<Rightarrow> (Inl err, s1)
         | Inr s2 \<Rightarrow>
             (Inr ld, bus_log (Log DEBUG (''Event listener added: '' @ eventName) None) s2))"

text \<open>The closure returned by \<open>on\<close>.\<close>

definition unsubscribe_event ::
  "string \<Rightarrow> listenerData \<Rightarrow> event_manager \<Rightarrow> (exn + unit) \<times> event_manager" where
  "unsubscribe_event eventName ld s =
     (case removeEventListener (target ld) eventName (handler ld) s of
        Inl err \<Rightarrow> (Inl err, s)
      | Inr s1 \<Rightarrow>
          (let s2 = (case map_of (listeners s1) eventName of
                       None \<Rightarrow> s1
                     | Some ls \<Rightarrow>
                         s1\<lparr>listeners := AList.update eventName
                              (filter (\<lambda>l. listenerId l \<noteq> listenerId ld) ls) (listeners s1)\<rparr>)
           in (Inr (), bus_log (Log DEBUG (''Event listener removed: '' @ eventName) None) s2)))"

text \<open>\<open>once\<close> wraps the handler in a new function (a new identity) and registers that.\<close>

definition once_event ::
  "string \<Rightarrow> nat \<Rightarrow> target \<Rightarrow> event_manager \<Rightarrow> (exn + listenerData) \<times> event_manager" where
  "once_event eventName hnd tg s =
     (let wrappedHandler = nextObject s
      in on_event eventName wrappedHandler tg (s\<lparr>nextObject := Suc (nextObject s)\<rparr>))"

text \<open>
  The \<open>forEach\<close> of \<open>off\<close>: it stops at the first registration whose target throws; the
  listeners removed before that stay removed.
\<close>

fun removeAllFrom ::
  "string \<Rightarrow> listenerData list \<Rightarrow> event_manager \<Rightarrow> (exn + unit) \<times> event_manager" where
  "removeAllFrom eventName [] s = (Inr (), s)"
| "removeAllFrom eventName (l # ls) s =
     (case removeEventListener (target l) eventName (handler l) s of
        Inl err \<Rightarrow> (Inl err, s)
      | Inr s1 \<Rightarrow> removeAllFrom eventName ls s1)"

definition off_event :: "string \<Rightarrow> event_manager \<Rightarrow> (exn + unit) \<times> event_manager" where
  "off_event eventName s =
     (case map_of (listeners s) eventName of
        None \<Rightarrow> (Inr (), s)
      | Some eventListeners \<Rightarrow>
          (case removeAllFrom eventName eventListeners s of
             (Inl err, s1) \<Rightarrow> (Inl err, s1)
           | (Inr _, s1) \<Rightarrow>
               (Inr (), bus_log (Log DEBUG (''All listeners removed for: '' @ eventName) None)
                          (s1\<lparr>listeners := AList.delete eventName (listeners s1)\<rparr>))))"

definition getHistory :: "int \<Rightarrow> event_manager \<Rightarrow> history_entry list" where
  "getHistory limit s = slice0 (eventHistory s) limit"

definition getHistoryFor :: "string \<Rightarrow> int \<Rightarrow> event_manager \<Rightarrow> history_entry list" where
  "getHistoryFor eventName limit s =
     slice0 (filter (\<lambda>entry. name entry = eventName) (eventHistory s)) limit"

definition clearHistory :: "event_manager \<Rightarrow> event_manager" where
  "clearHistory s = bus_log (Log DEBUG ''Event history cleared'' None) (s\<lparr>eventHistory := []\<rparr>)"

text \<open>The \<open>forEach\<close> of \<open>destroy\<close> over the event names, in the map's insertion order.\<close>

fun offEach :: "string list \<Rightarrow> event_manager \<Rightarrow> (exn + unit) \<times> event_manager" where
  "offEach [] s = (Inr (), s)"
| "offEach (n # ns) s =
     (case off_event n s of
        (Inl err, s1) \<Rightarrow> (Inl err, s1)
      | (Inr _, s1) \<Rightarrow> offEach ns s1)"

definition destroy :: "event_manager \<Rightarrow> (exn + unit) \<times> event_manager" where
  "destroy s =
     (case offEach (map fst (listeners s)) s of
        (Inl err, s1) \<Rightarrow> (Inl err, s1)
      | (Inr _, s1) \<Rightarrow>
          (Inr (), bus_log (Log DEBUG ''EventManager destroyed'' None)
                     (clearHistory (s1\<lparr>listeners := []\<rparr>))))"

text \<open>The channel returned by \<open>createChannel\<close> prefixes every event name.\<close>

definition channelName :: "string \<Rightarrow> string \<Rightarrow> string" where
  "channelName namespace eventName = namespace @ '':'' @ eventName"

text \<open>The operations that act on the bus, as a caller can issue them one after another.\<close>

datatype bus_op =
    Emit clock string jsval target
  | ChannelEmit string clock string jsval target
  | On string nat target
  | Once string nat target
  | Unsubscribe string listenerData
  | Off string
  | AddToHistory string jsval clock
  | ClearHistory
  | Destroy

fun bus_step :: "host \<Rightarrow> event_manager \<Rightarrow> bus_op \<Rightarrow> event_manager" where
  "bus_step h s (Emit c n d tg) = snd (emit h c n d tg s)"
| "bus_step h s (ChannelEmit ns c n d tg) = snd (emit h c (channelName ns n) d tg s)"
| "bus_step h s (On n hnd tg) = snd (on_event n hnd tg s)"
| "bus_step h s (Once n hnd tg) = snd (once_event n hnd tg s)"
| "bus_step h s (Unsubscribe n ld) = snd (unsubscribe_event n ld s)"
| "bus_step h s (Off n) = snd (off_event n s)"
| "bus_step h s (AddToHistory n d c) = addToHistory n d c s"
| "bus_step h s ClearHistory = clearHistory s"
| "bus_step h s Destroy = snd (destroy s)"

definition bus_run :: "host \<Rightarrow> bus_op list \<Rightarrow> event_manager" where
  "bus_run h ops = foldl (bus_step h) constructor ops"

section \<open>State store (utils/stateManager.js)\<close>

text \<open>
  A middleware is a function \<open>(key, candidateValue, oldValue) -> value\<close>; it may throw.
\<close>

type_synonym middleware_fn = "string \<Rightarrow> jsval \<Rightarrow> jsval \<Rightarrow> exn + jsval"

text \<open>
  A subscriber callback \<open>(newValue, oldValue, key) -> void\<close>. \<open>cbId\<close> is the identity of
  the function object (the \<open>Set\<close> of subscribers holds functions by reference). \<open>run\<close>
  is its behaviour: given its three arguments and the contents of the store it can read
  through \<open>getState\<close> while it runs, it returns (\<open>None\<close>) or throws (\<open>Some err\<close>).
  Callbacks that write to the store while they run are outside this model.
\<close>

record callback =
  cbId :: nat
  run :: "jsval \<Rightarrow> jsval \<Rightarrow> string \<Rightarrow> (string \<rightharpoonup> jsval) \<Rightarrow> exn option"

text \<open>One invocation of a callback, with the store contents visible to it.\<close>

record invocation =
  callee :: nat
  argNew :: jsval
  argOld :: jsval
  argKey :: string
  visible :: "string \<rightharpoonup> jsval"

text \<open>An element of the \<open>changes\<close> array of \<open>setMultipleStates\<close>.\<close>

record change =
  key :: string
  oldValue :: jsval
  newValue :: jsval

text \<open>
  The host of the store: \<open>JSON.stringify\<close> (which throws on some values) and whether
  \<open>localStorage.setItem\<close> succeeds.
\<close>

record store_host =
  jsonStringify :: "jsval \<Rightarrow> exn + string"
  storageAvailable :: bool

record state_manager =
  state :: "string \<rightharpoonup> jsval"
  subscribers :: "string \<rightharpoonup> callback list"
  middleware :: "middleware_fn list"
  localStorage :: "string \<rightharpoonup> string"
  invocations :: "invocation list"
  storeLog :: "log_entry list"

definition store_log :: "log_entry \<Rightarrow> state_manager \<Rightarrow> state_manager" where
  "store_log e s = s\<lparr>storeLog := storeLog s @ [e]\<rparr>"

text \<open>
  \<open>this.state[key]\<close>: a missing property reads as \<open>undefined\<close>. (Keys that name a
  property of \<open>Object.prototype\<close> are outside the model.)
\<close>

definition getState :: "string \<Rightarrow> state_manager \<Rightarrow> jsval" where
  "getState k s = (case state s k of None \<Rightarrow> VUndefined | Some v \<Rightarrow> v)"

text \<open>The \<open>reduce\<close> of \<open>applyMiddleware\<close>; a middleware that throws ends it.\<close>

fun reduceMiddleware ::
  "middleware_fn list \<Rightarrow> string \<Rightarrow> jsval \<Rightarrow> jsval \<Rightarrow> exn + jsval" where
  "reduceMiddleware [] k processedValue old = Inr processedValue"
| "reduceMiddleware (m # ms) k processedValue old =
     (case m k processedValue old of
        Inl err \<Rightarrow> Inl err
      | Inr v \<Rightarrow> reduceMiddleware ms k v old)"

definition applyMiddleware :: "string \<Rightarrow> jsval \<Rightarrow> jsval \<Rightarrow> state_manager \<Rightarrow> exn + jsval" where
  "applyMiddleware k v old s = reduceMiddleware (middleware s) k v old"

definition invocationOf ::
  "string \<Rightarrow> jsval \<Rightarrow> jsval \<Rightarrow> (string \<rightharpoonup> jsval) \<Rightarrow> callback \<Rightarrow> invocation" where
  "invocationOf k new old st cb =
     \<lparr>callee = cbId cb, argNew = new, argOld = old, argKey = k, visible = st\<rparr>"

text \<open>The body of the \<open>forEach\<close> of \<open>notifySubscribers\<close>, with its \<open>try\<close>/\<open>catch\<close>.\<close>

definition invoke :: "string \<Rightarrow> jsval \<Rightarrow> jsval \<Rightarrow> state_manager \<Rightarrow> callback \<Rightarrow> state_manager" where
  "invoke k new old s cb =
     (let s1 = s\<lparr>invocations := invocations s @ [invocationOf k new old (state s) cb]\<rparr>
      in case run cb new old k (state s) of
           None \<Rightarrow> s1
         | Some err \<Rightarrow> store_log (Log ERROR (''Error in state subscriber for '' @ k) (Some err)) s1)"

definition subscribersOf :: "string \<Rightarrow> state_manager \<Rightarrow> callback list" where
  "subscribersOf k s = (case subscribers s k of None \<Rightarrow> [] | Some cbs \<Rightarrow> cbs)"

definition notifySubscribers :: "string \<Rightarrow> jsval \<Rightarrow> jsval \<Rightarrow> state_manager \<Rightarrow> state_manager" where
  "notifySubscribers k new old s =
     (case subscribers s k of
        None \<Rightarrow> s
      | Some keySubscribers \<Rightarrow>
          if length keySubscribers > 0 then foldl (invoke k new old) s keySubscribers else s)"

definition autoSaveKeys :: "string list" where
  "autoSaveKeys = [''currentLanguage'', ''darkMode'', ''cookiePreferences'']"

definition autoSave :: "store_host \<Rightarrow> string \<Rightarrow> jsval \<Rightarrow> state_manager \<Rightarrow> state_manager" where
  "autoSave h k v s =
     (if k \<in> set autoSaveKeys
      then (case jsonStringify h v of
              Inl err \<Rightarrow> store_log (Log WARN (''Failed to auto-save '' @ k) (Some err)) s
            | Inr text \<Rightarrow>
                if storageAvailable h
                then s\<lparr>localStorage := (localStorage s)(''oudar-'' @ k \<mapsto> text)\<rparr>
                else store_log (Log WARN (''Failed to auto-save '' @ k)
                                  (Some (Error ''QuotaExceededError''))) s)
      else s)"

definition setState ::
  "store_host \<Rightarrow> string \<Rightarrow> jsval \<Rightarrow> bool \<Rightarrow> state_manager \<Rightarrow> (exn + unit) \<times> state_manager" where
  "setState h k v notify s =
     (let old = getState k s
      in case applyMiddleware k v old s of
           Inl err \<Rightarrow> (Inl err, s)
         | Inr processedValue \<Rightarrow>
             (let s1 = s\<lparr>state := (state s)(k \<mapsto> processedValue)\<rparr>;
                  s2 = store_log (Log DEBUG (''State updated: '' @ k) None) s1;
                  s3 = (if notify \<and> strict_neq old processedValue
                        then notifySubscribers k processedValue old s2 else s2)
              in (Inr (), autoSave h k processedValue s3)))"

text \<open>
  The first \<open>forEach\<close> of \<open>setMultipleStates\<close>, over \<open>Object.entries(updates)\<close>: the
  entries in the object's iteration order, the \<open>changes\<close> array collected so far, and the
  store. A middleware that throws leaves the entries before it written.
\<close>

fun applyEntries ::
  "(string \<times> jsval) list \<Rightarrow> change list \<Rightarrow> state_manager
     \<Rightarrow> (exn + change list) \<times> state_manager" where
  "applyEntries [] changes s = (Inr changes, s)"
| "applyEntries ((k, v) # rest) changes s =
     (let old = getState k s
      in case applyMiddleware k v old s of
           Inl err \<Rightarrow> (Inl err, s)
         | Inr processedValue \<Rightarrow>
             applyEntries rest
               (if strict_neq old processedValue
                then changes @ [\<lparr>key = k, oldValue = old, newValue = processedValue\<rparr>]
                else changes)
               (s\<lparr>state := (state s)(k \<mapsto> processedValue)\<rparr>))"

definition notifyChange :: "state_manager \<Rightarrow> change \<Rightarrow> state_manager" where
  "notifyChange s ch = notifySubscribers (key ch) (newValue ch) (oldValue ch) s"

definition setMultipleStates ::
  "(string \<times> jsval) list \<Rightarrow> bool \<Rightarrow> state_manager \<Rightarrow> (exn + unit) \<times> state_manager" where
  "setMultipleStates updates notify s =
     (case applyEntries updates [] s of
        (Inl err, s1) \<Rightarrow> (Inl err, s1)
      | (Inr changes, s1) \<Rightarrow>
          (let s2 = store_log (Log DEBUG ''Multiple state updates'' None) s1
           in (Inr (), if notify then foldl notifyChange s2 changes else s2)))"

text \<open>\<open>subscribe\<close> adds the callback to the key's \<open>Set\<close>; a function already in it stays once.\<close>

definition subscribe :: "string \<Rightarrow> callback \<Rightarrow> state_manager \<Rightarrow> state_manager" where
  "subscribe k cb s =
     (let cbs = subscribersOf k s;
          cbs1 = (if cbId cb \<in> set (map cbId cbs) then cbs else cbs @ [cb])
      in store_log (Log DEBUG (''Subscription added for: '' @ k) None)
           (s\<lparr>subscribers := (subscribers s)(k \<mapsto> cbs1)\<rparr>))"

text \<open>The unsubscribe closure returned by \<open>subscribe\<close>.\<close>

definition unsubscribe :: "string \<Rightarrow> callback \<Rightarrow> state_manager \<Rightarrow> state_manager" where
  "unsubscribe k cb s =
     store_log (Log DEBUG (''Subscription removed for: '' @ k) None)
       (case subscribers s k of
          None \<Rightarrow> s
        | Some keySubscribers \<Rightarrow>
            (let remaining = filter (\<lambda>c. cbId c \<noteq> cbId cb) keySubscribers
             in if length remaining = 0
                then s\<lparr>subscribers := (subscribers s)(k := None)\<rparr>
                else s\<lparr>subscribers := (subscribers s)(k \<mapsto> remaining)\<rparr>))"

definition addMiddleware :: "middleware_fn \<Rightarrow> state_manager \<Rightarrow> state_manager" where
  "addMiddleware m s =
     store_log (Log DEBUG ''Middleware added'' None) (s\<lparr>middleware := middleware s @ [m]\<rparr>)"

text \<open>A store with no field, no subscriber and no middleware.\<close>

definition emptyStore :: state_manager where
  "emptyStore =
     \<lparr>state = Map.empty, subscribers = Map.empty, middleware = [],
      localStorage = Map.empty, invocations = [], storeLog = []\<rparr>"


section \<open>Module loader (js/utils/lazyLoader.js)\<close>

text \<open>\<open>CONFIG.PERFORMANCE.MAX_RETRIES\<close> of config/settings.js.\<close>

definition MAX_RETRIES :: nat where
  "MAX_RETRIES = 3"

text \<open>The names that \<open>moduleMap\<close> of \<open>dynamicImport\<close> maps to an importer.\<close>

definition moduleMap :: "string list" where
  "moduleMap =
     [''carousel'', ''darkMode'', ''drawer'', ''header'', ''loader'', ''animations'',
      ''language'', ''blog'', ''cookies'', ''forms'', ''navigation'', ''expertiseNav'',
      ''home'', ''contact'', ''expertises'', ''team'']"

text \<open>
  A promise is known by its identity. \<open>importLog\<close> lists the invocations of
  \<open>dynamicImport\<close> in order, each with the promise it returned; \<open>suspended\<close> lists the
  activations of \<open>loadModule\<close> that wait at \<open>await modulePromise\<close>. \<open>moduleCache\<close> is
  not a field of the loader but the host's module map: the modules whose \<open>import()\<close> has
  succeeded.
\<close>

record lazy_loader =
  loadedModules :: "string \<rightharpoonup> jsval"
  pendingLoads :: "string \<rightharpoonup> nat"
  failedLoads :: "string set"
  retryCount :: "string \<rightharpoonup> nat"
  importLog :: "(nat \<times> string) list"
  suspended :: "(nat \<times> string) list"
  nextPromise :: nat
  moduleCache :: "string \<rightharpoonup> jsval"
  loaderLog :: "log_entry list"

definition loader_log :: "log_entry \<Rightarrow> lazy_loader \<Rightarrow> lazy_loader" where
  "loader_log e s = s\<lparr>loaderLog := loaderLog s @ [e]\<rparr>"

definition newLoader :: lazy_loader where
  "newLoader =
     \<lparr>loadedModules = Map.empty, pendingLoads = Map.empty, failedLoads = {},
      retryCount = Map.empty, importLog = [], suspended = [], nextPromise = 0,
      moduleCache = Map.empty, loaderLog = []\<rparr>"

text \<open>
  What a call of \<open>loadModule\<close> hands back at its \<open>return\<close>, or where it stops: the cached
  module, the promise stored in \<open>pendingLoads\<close>, \<open>null\<close>, or an activation suspended on
  the promise it has just created (its caller's result comes with \<open>resumeLoad\<close>). The
  promise that every \<open>async\<close> function wraps around its result is not modelled.
\<close>

datatype load_result = Module jsval | Promise nat | Null | Awaiting nat

text \<open>\<open>this.retryCount.get(moduleName) || 0\<close>\<close>

definition retriesOf :: "string \<Rightarrow> lazy_loader \<Rightarrow> nat" where
  "retriesOf moduleName s = (case retryCount s moduleName of None \<Rightarrow> 0 | Some r \<Rightarrow> r)"

text \<open>\<open>dynamicImport\<close> is \<open>async\<close>: it returns a new promise, also for an unknown name.\<close>

definition dynamicImport :: "string \<Rightarrow> lazy_loader \<Rightarrow> nat \<times> lazy_loader" where
  "dynamicImport moduleName s =
     (nextPromise s,
      s\<lparr>nextPromise := Suc (nextPromise s),
        importLog := importLog s @ [(nextPromise s, moduleName)]\<rparr>)"

text \<open>The invocations of an importer of the registry: those for a name of \<open>moduleMap\<close>.\<close>

definition importerCalls :: "lazy_loader \<Rightarrow> (nat \<times> string) list" where
  "importerCalls s = filter (\<lambda>(p, n). n \<in> set moduleMap) (importLog s)"

text \<open>
  \<open>loadModule\<close> up to its \<open>await\<close>; \<open>condition\<close> is the value of \<open>condition()\<close>. The
  calls of the logger's timer (\<open>time\<close>, \<open>timeEnd\<close>) are not recorded.
\<close>

definition loadModule :: "string \<Rightarrow> bool \<Rightarrow> lazy_loader \<Rightarrow> load_result \<times> lazy_loader" where
  "loadModule moduleName condition s =
     (case loadedModules s moduleName of
        Some m \<Rightarrow>
          (Module m, loader_log (Log DEBUG (''Module already loaded: '' @ moduleName) None) s)
      | None \<Rightarrow>
         (case pendingLoads s moduleName of
            Some p \<Rightarrow>
              (Promise p,
               loader_log (Log DEBUG (''Module loading in progress: '' @ moduleName) None) s)
          | None \<Rightarrow>
              if \<not> condition
              then (Null,
                    loader_log (Log DEBUG (''Condition not met for module: '' @ moduleName) None) s)
              else if moduleName \<in> failedLoads s \<and> retriesOf moduleName s \<ge> MAX_RETRIES
              then (Null,
                    loader_log (Log WARN (''Module '' @ moduleName @ '' failed too many times, skipping'')
                                  None) s)
              else (case dynamicImport moduleName s of
                      (modulePromise, s1) \<Rightarrow>
                        (Awaiting modulePromise,
                         s1\<lparr>pendingLoads := (pendingLoads s1)(moduleName \<mapsto> modulePromise),
                            suspended := suspended s1 @ [(modulePromise, moduleName)]\<rparr>))))"

text \<open>
  \<open>loadModule\<close> from its \<open>await\<close> on, when the awaited promise settles: with the module
  (\<open>Inr\<close>), or with an error (\<open>Inl\<close>) that the \<open>catch\<close> block handles.
\<close>

definition resumeLoad ::
  "nat \<Rightarrow> string \<Rightarrow> exn + jsval \<Rightarrow> lazy_loader \<Rightarrow> load_result \<times> lazy_loader" where
  "resumeLoad modulePromise moduleName outcome s =
     (let s0 = s\<lparr>suspended := remove1 (modulePromise, moduleName) (suspended s)\<rparr>
      in case outcome of
           Inr m \<Rightarrow>
             (Module m,
              loader_log (Log DEBUG (''Module loaded successfully: '' @ moduleName) None)
                (s0\<lparr>loadedModules := (loadedModules s0)(moduleName \<mapsto> m),
                    pendingLoads := (pendingLoads s0)(moduleName := None),
                    failedLoads := failedLoads s0 - {moduleName},
                    retryCount := (retryCount s0)(moduleName := None)\<rparr>))
         | Inl err \<Rightarrow>
             (Null,
              loader_log (Log ERROR (''Failed to load module '' @ moduleName) (Some err))
                (s0\<lparr>pendingLoads := (pendingLoads s0)(moduleName := None),
                    failedLoads := insert moduleName (failedLoads s0),
                    retryCount := (retryCount s0)(moduleName \<mapsto> retriesOf moduleName s0 + 1)\<rparr>)))"

definition retryModule :: "string \<Rightarrow> lazy_loader \<Rightarrow> load_result \<times> lazy_loader" where
  "retryModule moduleName s =
     (if moduleName \<notin> failedLoads s then loadModule moduleName True s
      else if retriesOf moduleName s \<ge> MAX_RETRIES
      then (Null,
            loader_log (Log WARN (''Module '' @ moduleName @ '' exceeded max retries'') None) s)
      else loadModule moduleName True (s\<lparr>failedLoads := failedLoads s - {moduleName}\<rparr>))"

definition cleanup :: "lazy_loader \<Rightarrow> lazy_loader" where
  "cleanup s =
     loader_log (Log DEBUG ''LazyLoader cleanup completed'' None) (s\<lparr>pendingLoads := Map.empty\<rparr>)"

text \<open>\<open>modules.map(module => this.loadModule(module))\<close>: one plain call per name, in order.\<close>

fun loadEach :: "string list \<Rightarrow> lazy_loader \<Rightarrow> load_result list \<times> lazy_loader" where
  "loadEach [] s = ([], s)"
| "loadEach (m # ms) s =
     (case loadModule m True s of
        (r, s1) \<Rightarrow> (case loadEach ms s1 of (rs, s2) \<Rightarrow> (r # rs, s2)))"

definition criticalModules :: "string list" where
  "criticalModules = [''darkMode'', ''language'', ''header'', ''loader'']"

definition preloadCriticalModules :: "lazy_loader \<Rightarrow> load_result list \<times> lazy_loader" where
  "preloadCriticalModules s =
     loadEach criticalModules (loader_log (Log INFO ''Preloading critical modules...'' None) s)"

definition interactionModules :: "string \<Rightarrow> string list" where
  "interactionModules interaction =
     (if interaction = ''scroll'' then [''animations'']
      else if interaction = ''drawer-open'' then [''drawer'']
      else if interaction = ''carousel-init'' then [''carousel'']
      else if interaction = ''form-focus'' then [''forms'']
      else if interaction = ''cookie-banner'' then [''cookies'']
      else if interaction = ''dark-mode-toggle'' then [''darkMode'']
      else if interaction = ''language-switch'' then [''language'']
      else [])"

definition loadOnInteraction :: "string \<Rightarrow> lazy_loader \<Rightarrow> load_result list \<times> lazy_loader" where
  "loadOnInteraction interaction s = loadEach (interactionModules interaction) s"

text \<open>
  How the host settles the promise of \<open>dynamicImport\<close> for a module name. For a name
  outside \<open>moduleMap\<close> the function itself throws, so the promise is rejected. An
  \<open>import()\<close> of a module that has been imported with success before gives that same
  module again (the language requires the host to answer repeated imports of one
  specifier with the same module). Otherwise the import succeeds or fails as the
  environment decides (\<open>outcome\<close>).
\<close>

definition hostOutcome :: "string \<Rightarrow> exn + jsval \<Rightarrow> lazy_loader \<Rightarrow> exn + jsval" where
  "hostOutcome moduleName outcome s =
     (if moduleName \<notin> set moduleMap then Inl (Error (''Unknown module: '' @ moduleName))
      else case moduleCache s moduleName of
             Some m \<Rightarrow> Inr m
           | None \<Rightarrow> outcome)"

definition hostRemember :: "string \<Rightarrow> exn + jsval \<Rightarrow> lazy_loader \<Rightarrow> lazy_loader" where
  "hostRemember moduleName result s =
     (case result of
        Inl err \<Rightarrow> s
      | Inr m \<Rightarrow> s\<lparr>moduleCache := (moduleCache s)(moduleName \<mapsto> m)\<rparr>)"

text \<open>
  What can happen to a loader, one event after another: a call of \<open>loadModule\<close>, of
  \<open>retryModule\<close> or of \<open>cleanup\<close>, and the settling of a promise on which an activation
  is suspended, which resumes that activation.
\<close>

datatype loader_event =
    Load string bool
  | Retry string
  | Settle nat "exn + jsval"
  | Cleanup

fun loader_step :: "lazy_loader \<Rightarrow> loader_event \<Rightarrow> lazy_loader" where
  "loader_step s (Load moduleName condition) = snd (loadModule moduleName condition s)"
| "loader_step s (Retry moduleName) = snd (retryModule moduleName s)"
| "loader_step s (Settle p outcome) =
     (case map_of (suspended s) p of
        None \<Rightarrow> s
      | Some moduleName \<Rightarrow>
          snd (resumeLoad p moduleName (hostOutcome moduleName outcome s)
                 (hostRemember moduleName (hostOutcome moduleName outcome s) s)))"
| "loader_step s Cleanup = cleanup s"

definition loader_run :: "loader_event list \<Rightarrow> lazy_loader" where
  "loader_run evs = foldl loader_step newLoader evs"


section \<open>Auxiliary definitions for the proofs\<close>

text \<open>The invariant of the event history: the capacity is 100 and the history fits it.\<close>

definition history_ok :: "event_manager \<Rightarrow> bool" where
  "history_ok s = (maxHistorySize s = 100 \<and> length (eventHistory s) \<le> 100)"

text \<open>A host and a clock reading for concrete runs of the bus.\<close>

definition host0 :: host where
  "host0 = \<lparr>hasCustomEvent = True, dispatchEvent = (\<lambda>tg ev. Inr True)\<rparr>"

definition clock0 :: clock where
  "clock0 = \<lparr>now = 1700000000000, isoString = ''2023-11-14T22:13:20.000Z''\<rparr>"

text \<open>
  Callbacks, a host and stores for concrete runs of the state store: a callback that
  returns and one that throws; a store with one subscriber on \<open>a\<close> and one on \<open>b\<close>; a
  store with three subscribers on \<open>x\<close>, the first and the last of which throw; a store
  with one subscriber on \<open>x\<close>; a store whose \<open>darkMode\<close> is \<open>false\<close>.
\<close>

definition quiet :: "nat \<Rightarrow> callback" where
  "quiet n = \<lparr>cbId = n, run = (\<lambda>new old k st. None)\<rparr>"

definition failing :: "nat \<Rightarrow> callback" where
  "failing n = \<lparr>cbId = n, run = (\<lambda>new old k st. Some (Error ''boom''))\<rparr>"

definition storeHost0 :: store_host where
  "storeHost0 =
     \<lparr>jsonStringify = (\<lambda>v. case v of VBool b \<Rightarrow> Inr (if b then ''true'' else ''false'')
                               | VNull \<Rightarrow> Inr ''null''
                               | _ \<Rightarrow> Inl (TypeError ''cyclic object value'')),
      storageAvailable = True\<rparr>"


definition storeX :: state_manager where
  "storeX = subscribe ''x'' (failing 3) (subscribe ''x'' (quiet 2) (subscribe ''x'' (failing 1) emptyStore))"

definition darkOff :: state_manager where
  "darkOff = emptyStore\<lparr>state := [''darkMode'' \<mapsto> VBool False]\<rparr>"

definition storeOne :: state_manager where
  "storeOne = subscribe ''x'' (quiet 1) emptyStore"

text \<open>
  A middleware that is a function of its three arguments and looks at the old value: it
  adds one to a number that is already stored.
\<close>

definition bump :: middleware_fn where
  "bump k v old =
     (if old = v then (case v of VNum i \<Rightarrow> Inr (VNum (i + 1)) | _ \<Rightarrow> Inr v) else Inr v)"

definition storeBump :: state_manager where
  "storeBump = addMiddleware bump storeOne"

text \<open>
  The invariant of the loader under all its events: a loaded module is not pending, is
  a module of the registry and is the one the host has cached; a pending module has not
  exhausted its retries; the promise of a pending module comes from an invocation of
  \<open>dynamicImport\<close> for it; promises are numbered in order; a failed module is not
  loaded.
\<close>

definition loader_ok :: "lazy_loader \<Rightarrow> bool" where
  "loader_ok s =
     ((\<forall>n m. loadedModules s n = Some m \<longrightarrow>
               pendingLoads s n = None \<and> moduleCache s n = Some m \<and> n \<in> set moduleMap) \<and>
      (\<forall>n p. pendingLoads s n = Some p \<longrightarrow>
               \<not> (n \<in> failedLoads s \<and> retriesOf n s \<ge> MAX_RETRIES)) \<and>
      (\<forall>n p. pendingLoads s n = Some p \<longrightarrow> (p, n) \<in> set (importLog s)) \<and>
      map fst (importLog s) = [0..<nextPromise s] \<and>
      (\<forall>n. n \<in> failedLoads s \<longrightarrow> loadedModules s n = None))"

text \<open>
  Event sequences for concrete runs of the loader: three loads of one module that fail
  one after the other; one load that fails.
\<close>

definition failingEvents :: "loader_event list" where
  "failingEvents =
     [Load ''darkMode'' True, Settle 0 (Inl (Error ''network'')),
      Load ''darkMode'' True, Settle 1 (Inl (Error ''network'')),
      Load ''darkMode'' True, Settle 2 (Inl (Error ''network''))]"

definition blogFailedOnce :: "loader_event list" where
  "blogFailedOnce = [Load ''blog'' True, Settle 0 (Inl (Error ''network''))]"

section \<open>Event bus: the bounded history and the error handling of emit\<close>


lemma eh_bus_log [simp]: "eventHistory (bus_log e s) = eventHistory s" "maxHistorySize (bus_log e s) = maxHistorySize s"
  by (simp_all add: bus_log_def)

lemma addToHistory_history:
  "eventHistory (addToHistory n d c s) =
     (if length (eventHistory s) < maxHistorySize s then mkEntry n d c # eventHistory s
      else take (maxHistorySize s) (mkEntry n d c # eventHistory s))"
  by (simp add: addToHistory_def Let_def slice0_def)

lemma addToHistory_max [simp]: "maxHistorySize (addToHistory n d c s) = maxHistorySize s"
  by (simp add: addToHistory_def Let_def)

lemma emit_history:
  "eventHistory (snd (emit h c n d tg s)) =
     (if hasCustomEvent h then eventHistory (addToHistory n d c s) else eventHistory s)"
  by (simp add: emit_def emit_try_def newCustomEvent_def Let_def split: sum.splits prod.splits)

lemma emit_max [simp]: "maxHistorySize (snd (emit h c n d tg s)) = maxHistorySize s"
  by (simp add: emit_def emit_try_def newCustomEvent_def Let_def split: sum.splits prod.splits)

lemma on_keeps [simp]:
  "eventHistory (snd (on_event n hnd tg s)) = eventHistory s"
  "maxHistorySize (snd (on_event n hnd tg s)) = maxHistorySize s"
  by (simp_all add: on_event_def addEventListener_def Let_def split: sum.splits)

lemma once_keeps [simp]:
  "eventHistory (snd (once_event n hnd tg s)) = eventHistory s"
  "maxHistorySize (snd (once_event n hnd tg s)) = maxHistorySize s"
  by (simp_all add: once_event_def Let_def)

lemma unsubscribe_keeps [simp]:
  "eventHistory (snd (unsubscribe_event n ld s)) = eventHistory s"
  "maxHistorySize (snd (unsubscribe_event n ld s)) = maxHistorySize s"
  by (simp_all add: unsubscribe_event_def removeEventListener_def Let_def split: sum.splits option.splits)

lemma removeAllFrom_keeps:
  "removeAllFrom n ls s = (r, s1) \<Longrightarrow>
     eventHistory s1 = eventHistory s \<and> maxHistorySize s1 = maxHistorySize s"
  by (induction ls arbitrary: s) (auto simp: removeEventListener_def split: sum.splits if_splits)

lemma off_keeps:
  "off_event n s = (r, s1) \<Longrightarrow> eventHistory s1 = eventHistory s \<and> maxHistorySize s1 = maxHistorySize s"
  by (auto simp: off_event_def dest: removeAllFrom_keeps split: sum.splits option.splits prod.splits)

lemma offEach_keeps:
  "offEach ns s = (r, s1) \<Longrightarrow> eventHistory s1 = eventHistory s \<and> maxHistorySize s1 = maxHistorySize s"
proof (induction ns arbitrary: s)
  case Nil
  then show ?case by simp
next
  case (Cons a ns)
  obtain r0 s0 where o: "off_event a s = (r0, s0)" by (cases "off_event a s")
  note k = off_keeps[OF o]
  show ?case
  proof (cases r0)
    case (Inl e)
    with Cons.prems o k show ?thesis by simp
  next
    case (Inr u)
    with Cons.prems o have "offEach ns s0 = (r, s1)" by simp
    from Cons.IH[OF this] k show ?thesis by simp
  qed
qed

lemma destroy_keeps:
  "destroy s = (r, s1) \<Longrightarrow>
     maxHistorySize s1 = maxHistorySize s \<and> (eventHistory s1 = eventHistory s \<or> eventHistory s1 = [])"
proof -
  assume d: "destroy s = (r, s1)"
  obtain r0 s0 where o: "offEach (map fst (listeners s)) s = (r0, s0)"
    by (cases "offEach (map fst (listeners s)) s")
  note k = offEach_keeps[OF o]
  show ?thesis
  proof (cases r0)
    case (Inl e)
    with d o k show ?thesis by (auto simp: destroy_def)
  next
    case (Inr u)
    with d o k show ?thesis by (auto simp: destroy_def clearHistory_def)
  qed
qed

lemma bus_step_ok: "history_ok s \<Longrightarrow> history_ok (bus_step h s op)"
proof (cases op)
  case Destroy
  assume "history_ok s"
  then show ?thesis using Destroy destroy_keeps[of s "fst (destroy s)" "snd (destroy s)"]
    by (auto simp: history_ok_def)
next
  case (Off n)
  assume "history_ok s"
  then show ?thesis using Off off_keeps[of n s "fst (off_event n s)" "snd (off_event n s)"]
    by (auto simp: history_ok_def)
qed (auto simp: history_ok_def emit_history addToHistory_history clearHistory_def)

lemma constructor_ok: "history_ok constructor"
  by (simp add: history_ok_def constructor_def)

lemma foldl_bus_ok: "history_ok s \<Longrightarrow> history_ok (foldl (bus_step h) s ops)"
  by (induction ops arbitrary: s) (simp_all add: bus_step_ok)

lemma bus_run_ok: "history_ok (bus_run h ops)"
  unfolding bus_run_def by (rule foldl_bus_ok[OF constructor_ok])


lemma take_full_butlast: "length xs = n \<Longrightarrow> 0 < n \<Longrightarrow> take n (e # xs) = e # butlast xs"
  by (cases n) (simp_all add: butlast_conv_take)

lemma replicate_add_length:
  "history_ok s \<Longrightarrow>
   length (eventHistory (foldl (bus_step h) s (replicate k (AddToHistory n d c))))
     = min 100 (length (eventHistory s) + k)"
proof (induction k arbitrary: s)
  case 0
  then show ?case by (simp add: history_ok_def)
next
  case (Suc k)
  have ok: "history_ok (addToHistory n d c s)"
    using bus_step_ok[OF Suc.prems, of h "AddToHistory n d c"] by simp
  have "length (eventHistory (addToHistory n d c s)) = min 100 (length (eventHistory s) + 1)"
    using Suc.prems by (auto simp: addToHistory_history history_ok_def)
  with Suc.IH[OF ok] show ?case by simp
qed

text \<open>
  Claim C6. After any sequence of bus operations on a new bus the history holds at most
  100 entries. \<open>addToHistory\<close> puts the new entry at the head, in front of the older
  entries in their order; when the history is full, the last (oldest) entry, and only
  that one, is dropped. \<open>emit\<close> changes the history through \<open>addToHistory\<close> only.
\<close>

theorem history_capacity_fifo:
  "length (eventHistory (bus_run h ops)) \<le> 100 \<and>
   eventHistory (addToHistory n d c (bus_run h ops)) =
     (if length (eventHistory (bus_run h ops)) < 100
      then mkEntry n d c # eventHistory (bus_run h ops)
      else mkEntry n d c # butlast (eventHistory (bus_run h ops))) \<and>
   eventHistory (snd (emit h c n d tg (bus_run h ops))) =
     (if hasCustomEvent h then eventHistory (addToHistory n d c (bus_run h ops))
      else eventHistory (bus_run h ops))"
proof -
  have ok: "history_ok (bus_run h ops)" by (rule bus_run_ok)
  then have len: "length (eventHistory (bus_run h ops)) \<le> 100"
    and mx: "maxHistorySize (bus_run h ops) = 100"
    by (simp_all add: history_ok_def)
  have "eventHistory (addToHistory n d c (bus_run h ops)) =
     (if length (eventHistory (bus_run h ops)) < 100
      then mkEntry n d c # eventHistory (bus_run h ops)
      else mkEntry n d c # butlast (eventHistory (bus_run h ops)))"
  proof (cases "length (eventHistory (bus_run h ops)) < 100")
    case True
    then show ?thesis by (simp add: addToHistory_history mx)
  next
    case False
    with len have "length (eventHistory (bus_run h ops)) = 100" by simp
    from take_full_butlast[OF this] False show ?thesis
      by (simp add: addToHistory_history mx)
  qed
  with len show ?thesis by (simp add: emit_history)
qed

text \<open>At capacity: after 100 recorded events a further one evicts the oldest.\<close>

theorem history_capacity_fifo_witness:
  "length (eventHistory (bus_run host0 (replicate 100 (AddToHistory ''a'' VNull clock0)))) = 100 \<and>
   eventHistory (addToHistory ''b'' VNull clock0 (bus_run host0 (replicate 100 (AddToHistory ''a'' VNull clock0)))) =
     mkEntry ''b'' VNull clock0 # butlast (eventHistory (bus_run host0 (replicate 100 (AddToHistory ''a'' VNull clock0))))"
proof -
  have l: "length (eventHistory (bus_run host0 (replicate 100 (AddToHistory ''a'' VNull clock0)))) = 100"
    unfolding bus_run_def using replicate_add_length[OF constructor_ok, of host0 100 "''a''" VNull clock0]
    by (simp add: constructor_def)
  with history_capacity_fifo[of host0 "replicate 100 (AddToHistory ''a'' VNull clock0)" "''b''" VNull clock0 Window]
  show ?thesis by simp
qed

text \<open>
  Claim C9. \<open>emit\<close> never lets an exception out. When the construction of the event or
  the dispatch to the target throws, \<open>emit\<close> returns \<open>null\<close> and the last entry of the
  log is the error it caught.
\<close>

theorem emit_catches_all:
  "\<not> isl (fst (emit h c n d tg s)) \<and>
   (\<forall>err. (newCustomEvent h n d = Inl err \<or>
           (\<exists>event. newCustomEvent h n d = Inr event \<and> targetDispatch h tg event = Inl err))
      \<longrightarrow> fst (emit h c n d tg s) = Inr None \<and>
          (\<exists>older. busLog (snd (emit h c n d tg s)) =
             older @ [Log ERROR (''Failed to emit event: '' @ n) (Some err)]))"
  by (auto simp: emit_def emit_try_def bus_log_def Let_def split: sum.splits prod.splits)

text \<open>A host without \<open>CustomEvent\<close>, a target that cannot dispatch, and a successful emit.\<close>

theorem emit_catches_all_witness:
  "fst (emit (host0\<lparr>hasCustomEvent := False\<rparr>) clock0 ''ping'' VNull Window constructor) = Inr None \<and>
   fst (emit host0 clock0 ''ping'' VNull NoTarget constructor) = Inr None \<and>
   fst (emit host0 clock0 ''ping'' VNull Window constructor) =
     Inr (Some \<lparr>ev_type = ''ping'', detail = VNull, bubbles = True, cancelable = True\<rparr>)"
  using emit_catches_all[of "host0\<lparr>hasCustomEvent := False\<rparr>" clock0 "''ping''" VNull Window constructor]
        emit_catches_all[of host0 clock0 "''ping''" VNull NoTarget constructor]
  by (simp add: emit_def emit_try_def newCustomEvent_def targetDispatch_def host0_def Let_def)

text \<open>
  Claim C10. The history is written before the dispatch: when the event is built and the
  dispatch throws, \<open>emit\<close> returns \<open>null\<close> and the record of the event is nonetheless
  the first entry of the history, of \<open>getHistory\<close> and of \<open>getHistoryFor\<close> (for a
  positive limit).
\<close>

theorem emit_history_survives_failed_dispatch:
  assumes "newCustomEvent h n d = Inr event"
    and "targetDispatch h tg event = Inl err"
    and "0 < limit"
  shows "fst (emit h c n d tg (bus_run h ops)) = Inr None \<and>
         eventHistory (snd (emit h c n d tg (bus_run h ops))) =
           take 100 (mkEntry n d c # eventHistory (bus_run h ops)) \<and>
         (\<exists>rest. getHistory limit (snd (emit h c n d tg (bus_run h ops))) = mkEntry n d c # rest) \<and>
         (\<exists>rest. getHistoryFor n limit (snd (emit h c n d tg (bus_run h ops))) = mkEntry n d c # rest)"
proof -
  let ?s = "bus_run h ops"
  have ok: "history_ok ?s" by (rule bus_run_ok)
  have r: "fst (emit h c n d tg ?s) = Inr None"
    using assms by (simp add: emit_def emit_try_def Let_def)
  have hc: "hasCustomEvent h" using assms(1) by (auto simp: newCustomEvent_def split: if_splits)
  have eh: "eventHistory (snd (emit h c n d tg ?s)) = take 100 (mkEntry n d c # eventHistory ?s)"
    using ok hc by (auto simp: emit_history addToHistory_history history_ok_def)
  obtain k where k: "nat limit = Suc k" using assms(3) by (cases "nat limit") auto
  have g1: "\<exists>rest. getHistory limit (snd (emit h c n d tg ?s)) = mkEntry n d c # rest"
    using assms(3) k by (simp add: getHistory_def slice0_def eh)
  have g2: "\<exists>rest. getHistoryFor n limit (snd (emit h c n d tg ?s)) = mkEntry n d c # rest"
    using assms(3) k by (simp add: getHistoryFor_def slice0_def eh mkEntry_def)
  from r eh g1 g2 show ?thesis by blast
qed

text \<open>An emit to a target without \<open>dispatchEvent\<close> on a new bus.\<close>

theorem emit_history_survives_failed_dispatch_witness:
  "fst (emit host0 clock0 ''ping'' (VNum 7) NoTarget (bus_run host0 [])) = Inr None \<and>
   getHistory 10 (snd (emit host0 clock0 ''ping'' (VNum 7) NoTarget (bus_run host0 [])))
     = [mkEntry ''ping'' (VNum 7) clock0] \<and>
   getHistoryFor ''ping'' 10 (snd (emit host0 clock0 ''ping'' (VNum 7) NoTarget (bus_run host0 [])))
     = [mkEntry ''ping'' (VNum 7) clock0]"
proof -
  have a: "newCustomEvent host0 ''ping'' (VNum 7) =
             Inr \<lparr>ev_type = ''ping'', detail = VNum 7, bubbles = True, cancelable = True\<rparr>"
    by (simp add: newCustomEvent_def host0_def)
  have b: "targetDispatch host0 NoTarget \<lparr>ev_type = ''ping'', detail = VNum 7, bubbles = True, cancelable = True\<rparr>
             = Inl (TypeError ''target.dispatchEvent is not a function'')"
    by (simp add: targetDispatch_def)
  have c: "(0::int) < 10" by simp
  from emit_history_survives_failed_dispatch[OF a b c, of clock0 "[]"]
  show ?thesis
    by (auto simp: getHistory_def getHistoryFor_def slice0_def bus_run_def constructor_def
          bus_log_def mkEntry_def)
qed

section \<open>State store: notification order, subscriber errors, persistence\<close>

lemma store_log_fields [simp]:
  "state (store_log e s) = state s"
  "subscribers (store_log e s) = subscribers s"
  "middleware (store_log e s) = middleware s"
  "localStorage (store_log e s) = localStorage s"
  "invocations (store_log e s) = invocations s"
  "storeLog (store_log e s) = storeLog s @ [e]"
  by (simp_all add: store_log_def)

lemma getState_store_log [simp]: "getState k (store_log e s) = getState k s"
  by (simp add: getState_def)

lemma subscribersOf_store_log [simp]: "subscribersOf k (store_log e s) = subscribersOf k s"
  by (simp add: subscribersOf_def)

lemma invoke_fields [simp]:
  "state (invoke k new old s cb) = state s"
  "subscribers (invoke k new old s cb) = subscribers s"
  "middleware (invoke k new old s cb) = middleware s"
  "localStorage (invoke k new old s cb) = localStorage s"
  "invocations (invoke k new old s cb) = invocations s @ [invocationOf k new old (state s) cb]"
  by (simp_all add: invoke_def Let_def split: option.splits)

lemma invoke_log:
  "storeLog (invoke k new old s cb) =
     storeLog s @ (case run cb new old k (state s) of None \<Rightarrow> []
                   | Some err \<Rightarrow> [Log ERROR (''Error in state subscriber for '' @ k) (Some err)])"
  by (simp add: invoke_def Let_def split: option.splits)

lemma foldl_invoke_fields:
  "state (foldl (invoke k new old) s cbs) = state s \<and>
   subscribers (foldl (invoke k new old) s cbs) = subscribers s \<and>
   middleware (foldl (invoke k new old) s cbs) = middleware s \<and>
   localStorage (foldl (invoke k new old) s cbs) = localStorage s \<and>
   invocations (foldl (invoke k new old) s cbs) =
     invocations s @ map (invocationOf k new old (state s)) cbs \<and>
   storeLog (foldl (invoke k new old) s cbs) =
     storeLog s @ concat (map (\<lambda>cb. case run cb new old k (state s) of None \<Rightarrow> []
        | Some err \<Rightarrow> [Log ERROR (''Error in state subscriber for '' @ k) (Some err)]) cbs)"
  by (induction cbs arbitrary: s) (simp_all add: invoke_log)

lemma notifySubscribers_fields:
  "state (notifySubscribers k new old s) = state s \<and>
   subscribers (notifySubscribers k new old s) = subscribers s \<and>
   middleware (notifySubscribers k new old s) = middleware s \<and>
   localStorage (notifySubscribers k new old s) = localStorage s \<and>
   invocations (notifySubscribers k new old s) =
     invocations s @ map (invocationOf k new old (state s)) (subscribersOf k s) \<and>
   storeLog (notifySubscribers k new old s) =
     storeLog s @ concat (map (\<lambda>cb. case run cb new old k (state s) of None \<Rightarrow> []
        | Some err \<Rightarrow> [Log ERROR (''Error in state subscriber for '' @ k) (Some err)])
        (subscribersOf k s))"
  using foldl_invoke_fields[of k new old s]
  by (auto simp: notifySubscribers_def subscribersOf_def split: option.splits)

lemma foldl_notifyChange_fields:
  "state (foldl notifyChange s chs) = state s \<and>
   subscribers (foldl notifyChange s chs) = subscribers s \<and>
   middleware (foldl notifyChange s chs) = middleware s \<and>
   localStorage (foldl notifyChange s chs) = localStorage s \<and>
   invocations (foldl notifyChange s chs) =
     invocations s @ concat (map (\<lambda>ch. map (invocationOf (key ch) (newValue ch) (oldValue ch) (state s))
                                          (subscribersOf (key ch) s)) chs)"
proof (induction chs arbitrary: s)
  case Nil
  then show ?case by simp
next
  case (Cons ch chs)
  let ?s1 = "notifyChange s ch"
  have n: "state ?s1 = state s" "subscribers ?s1 = subscribers s" "middleware ?s1 = middleware s"
    "localStorage ?s1 = localStorage s"
    "invocations ?s1 = invocations s @ map (invocationOf (key ch) (newValue ch) (oldValue ch) (state s))
                                          (subscribersOf (key ch) s)"
    using notifySubscribers_fields[of "key ch" "newValue ch" "oldValue ch" s]
    by (simp_all add: notifyChange_def)
  have so: "\<And>k. subscribersOf k ?s1 = subscribersOf k s" by (simp add: subscribersOf_def n)
  show ?case using Cons.IH[of ?s1] by (simp add: n so)
qed

lemma applyMiddleware_state [simp]:
  "applyMiddleware k v old (s\<lparr>state := st\<rparr>) = applyMiddleware k v old s"
  by (simp add: applyMiddleware_def)




lemma cbId_examples [simp]: "cbId (quiet n) = n" "cbId (failing n) = n"
  by (simp_all add: quiet_def failing_def)

lemma run_examples [simp]:
  "run (quiet n) new old k st = None" "run (failing n) new old k st = Some (Error ''boom'')"
  by (simp_all add: quiet_def failing_def)

lemma autoSave_fields [simp]:
  "state (autoSave h k v s) = state s"
  "subscribers (autoSave h k v s) = subscribers s"
  "middleware (autoSave h k v s) = middleware s"
  "invocations (autoSave h k v s) = invocations s"
  by (simp_all add: autoSave_def split: sum.splits)

lemma autoSave_log_keeps: "set (storeLog s) \<subseteq> set (storeLog (autoSave h k v s))"
  by (auto simp: autoSave_def split: sum.splits)

lemma setState_notified:
  assumes "applyMiddleware k v (getState k s) s = Inr pv"
  shows "setState h k v notify s =
     (Inr (), autoSave h k pv
        (if notify \<and> strict_neq (getState k s) pv
         then notifySubscribers k pv (getState k s)
                (store_log (Log DEBUG (''State updated: '' @ k) None) (s\<lparr>state := (state s)(k \<mapsto> pv)\<rparr>))
         else store_log (Log DEBUG (''State updated: '' @ k) None) (s\<lparr>state := (state s)(k \<mapsto> pv)\<rparr>)))"
  using assms by (simp add: setState_def Let_def)

lemma setState_invocations:
  assumes "applyMiddleware k v (getState k s) s = Inr pv"
  shows "invocations (snd (setState h k v notify s)) =
           invocations s @ (if notify \<and> strict_neq (getState k s) pv
                            then map (invocationOf k pv (getState k s) ((state s)(k \<mapsto> pv)))
                                     (subscribersOf k s)
                            else [])"
    and "state (snd (setState h k v notify s)) = (state s)(k \<mapsto> pv)"
    and "subscribers (snd (setState h k v notify s)) = subscribers s"
    and "middleware (snd (setState h k v notify s)) = middleware s"
proof -
  let ?s2 = "store_log (Log DEBUG (''State updated: '' @ k) None) (s\<lparr>state := (state s)(k \<mapsto> pv)\<rparr>)"
  note nf = notifySubscribers_fields[of k pv "getState k s" ?s2]
  have so: "subscribersOf k ?s2 = subscribersOf k s" by (simp add: subscribersOf_def)
  show "invocations (snd (setState h k v notify s)) =
           invocations s @ (if notify \<and> strict_neq (getState k s) pv
                            then map (invocationOf k pv (getState k s) ((state s)(k \<mapsto> pv)))
                                     (subscribersOf k s)
                            else [])"
    using nf so by (simp add: setState_notified[OF assms])
  show "state (snd (setState h k v notify s)) = (state s)(k \<mapsto> pv)"
    using nf by (simp add: setState_notified[OF assms])
  show "subscribers (snd (setState h k v notify s)) = subscribers s"
    using nf by (simp add: setState_notified[OF assms])
  show "middleware (snd (setState h k v notify s)) = middleware s"
    using nf by (simp add: setState_notified[OF assms])
qed

text \<open>
  Claim C8. A \<open>setState\<close> whose middleware chain returns and whose value changes returns
  normally whatever the subscribers do; it leaves the subscribers registered as they
  were; it invokes every subscriber of the key, in order; and for every subscriber that
  throws, the error is in the log.
\<close>

theorem subscriber_errors_isolated:
  assumes "applyMiddleware k v (getState k s) s = Inr pv"
    and "strict_neq (getState k s) pv"
  shows "fst (setState h k v True s) = Inr () \<and>
         subscribers (snd (setState h k v True s)) = subscribers s \<and>
         invocations (snd (setState h k v True s)) =
           invocations s @ map (invocationOf k pv (getState k s) ((state s)(k \<mapsto> pv)))
                               (subscribersOf k s) \<and>
         (\<forall>cb \<in> set (subscribersOf k s). \<forall>err.
            run cb pv (getState k s) k ((state s)(k \<mapsto> pv)) = Some err \<longrightarrow>
            Log ERROR (''Error in state subscriber for '' @ k) (Some err)
              \<in> set (storeLog (snd (setState h k v True s))))"
proof -
  let ?s2 = "store_log (Log DEBUG (''State updated: '' @ k) None) (s\<lparr>state := (state s)(k \<mapsto> pv)\<rparr>)"
  let ?s3 = "notifySubscribers k pv (getState k s) ?s2"
  note nf = notifySubscribers_fields[of k pv "getState k s" ?s2]
  have so: "subscribersOf k ?s2 = subscribersOf k s" by (simp add: subscribersOf_def)
  have r: "setState h k v True s = (Inr (), autoSave h k pv ?s3)"
    using assms by (simp add: setState_notified[OF assms(1)])
  have lg: "\<forall>cb \<in> set (subscribersOf k s). \<forall>err.
            run cb pv (getState k s) k ((state s)(k \<mapsto> pv)) = Some err \<longrightarrow>
            Log ERROR (''Error in state subscriber for '' @ k) (Some err) \<in> set (storeLog ?s3)"
  proof (intro ballI allI impI)
    fix cb err
    assume cb: "cb \<in> set (subscribersOf k s)"
      and th: "run cb pv (getState k s) k ((state s)(k \<mapsto> pv)) = Some err"
    from nf so have "storeLog ?s3 = storeLog ?s2 @ concat (map (\<lambda>cb. case run cb pv (getState k s) k ((state s)(k \<mapsto> pv)) of None \<Rightarrow> []
        | Some err \<Rightarrow> [Log ERROR (''Error in state subscriber for '' @ k) (Some err)])
        (subscribersOf k s))" by simp
    with cb th show "Log ERROR (''Error in state subscriber for '' @ k) (Some err) \<in> set (storeLog ?s3)"
      by force
  qed
  from lg autoSave_log_keeps[of ?s3 h k pv]
  have lg': "\<forall>cb \<in> set (subscribersOf k s). \<forall>err.
            run cb pv (getState k s) k ((state s)(k \<mapsto> pv)) = Some err \<longrightarrow>
            Log ERROR (''Error in state subscriber for '' @ k) (Some err)
              \<in> set (storeLog (autoSave h k pv ?s3))"
    by blast
  show ?thesis
    using setState_invocations[OF assms(1), of h True] assms(2) lg' by (simp add: r)
qed

text \<open>Three subscribers on \<open>x\<close>, the first and the third throw: all three are invoked.\<close>

theorem subscriber_errors_isolated_witness:
  "fst (setState storeHost0 ''x'' (VNum 1) True storeX) = Inr () \<and>
   map cbId (subscribersOf ''x'' (snd (setState storeHost0 ''x'' (VNum 1) True storeX))) = [1, 2, 3] \<and>
   map callee (invocations (snd (setState storeHost0 ''x'' (VNum 1) True storeX))) = [1, 2, 3] \<and>
   Log ERROR ''Error in state subscriber for x'' (Some (Error ''boom''))
     \<in> set (storeLog (snd (setState storeHost0 ''x'' (VNum 1) True storeX)))"
proof -
  have g: "getState ''x'' storeX = VUndefined" "subscribersOf ''x'' storeX = [failing 1, quiet 2, failing 3]"
    "invocations storeX = []"
    by (simp_all add: getState_def storeX_def subscribe_def emptyStore_def store_log_def Let_def
          subscribersOf_def failing_def quiet_def)
  have a: "applyMiddleware ''x'' (VNum 1) (getState ''x'' storeX) storeX = Inr (VNum 1)"
    by (simp add: applyMiddleware_def storeX_def subscribe_def emptyStore_def store_log_def Let_def)
  have b: "strict_neq (getState ''x'' storeX) (VNum 1)" by (simp add: g strict_neq_def)
  note t = subscriber_errors_isolated[OF a b, of storeHost0]
  from t have "subscribers (snd (setState storeHost0 ''x'' (VNum 1) True storeX)) = subscribers storeX"
    by blast
  then have so: "subscribersOf ''x'' (snd (setState storeHost0 ''x'' (VNum 1) True storeX))
                   = subscribersOf ''x'' storeX"
    by (simp add: subscribersOf_def)
  from t show ?thesis
    by (simp add: so g invocationOf_def)
qed


text \<open>
  A middleware chain that is a function of its inputs does not by itself give the same
  value on the second call, because the old value is one of its inputs: with \<open>bump\<close>,
  \<open>setState('x', 1)\<close> twice stores 1 and then 2, and notifies twice.
\<close>

lemma setState_twice_middleware_example:
  "map (\<lambda>i. (callee i, argNew i, argOld i))
     (invocations (snd (setState storeHost0 ''x'' (VNum 1) True
        (snd (setState storeHost0 ''x'' (VNum 1) True storeBump)))))
     = [(1, VNum 1, VUndefined), (1, VNum 2, VNum 1)]"
  by (simp add: setState_def applyMiddleware_def getState_def storeOne_def storeBump_def
        addMiddleware_def bump_def subscribe_def
        emptyStore_def store_log_def Let_def subscribersOf_def quiet_def strict_neq_def
        notifySubscribers_def invoke_def invocationOf_def autoSave_def autoSaveKeys_def)



lemma applyEntries_localStorage:
  "localStorage (snd (applyEntries updates chs s)) = localStorage s"
proof (induction updates arbitrary: chs s)
  case Nil
  then show ?case by simp
next
  case (Cons kv rest)
  obtain k v where kv: "kv = (k, v)" by (cases kv)
  show ?case unfolding kv
    by (cases "applyMiddleware k v (getState k s) s") (simp_all add: Let_def Cons.IH)
qed

lemma setMultipleStates_localStorage:
  "localStorage (snd (setMultipleStates updates notify s)) = localStorage s"
proof -
  obtain r s1 where ae: "applyEntries updates [] s = (r, s1)" by (cases "applyEntries updates [] s")
  have l1: "localStorage s1 = localStorage s" using applyEntries_localStorage[of updates "[]" s] ae by simp
  show ?thesis
    using l1 foldl_notifyChange_fields[of "store_log (Log DEBUG ''Multiple state updates'' None) s1"]
    by (cases r) (simp_all add: setMultipleStates_def ae Let_def)
qed

text \<open>
  Claim C4 at a concrete input. \<open>setMultipleStates({darkMode: true})\<close> on a store whose
  \<open>darkMode\<close> is \<open>false\<close> changes the field and writes nothing to \<open>localStorage\<close>, while
  \<open>setState('darkMode', true)\<close> on the same store writes \<open>oudar-darkMode\<close>.
\<close>

theorem setMultipleStates_skips_autoSave:
  "getState ''darkMode'' darkOff = VBool False \<and>
   getState ''darkMode'' (snd (setMultipleStates [(''darkMode'', VBool True)] True darkOff)) = VBool True \<and>
   localStorage (snd (setMultipleStates [(''darkMode'', VBool True)] True darkOff)) ''oudar-darkMode'' = None \<and>
   localStorage (snd (setState storeHost0 ''darkMode'' (VBool True) True darkOff)) ''oudar-darkMode''
     = Some ''true''"
  by (simp add: setMultipleStates_def setState_def applyMiddleware_def getState_def darkOff_def
        emptyStore_def store_log_def Let_def strict_neq_def notifyChange_def notifySubscribers_def
        autoSave_def autoSaveKeys_def storeHost0_def)

section \<open>Module loader: shared pending loads, the retry ceiling, the retry count\<close>

lemma loader_log_fields [simp]:
  "loadedModules (loader_log e s) = loadedModules s"
  "pendingLoads (loader_log e s) = pendingLoads s"
  "failedLoads (loader_log e s) = failedLoads s"
  "retryCount (loader_log e s) = retryCount s"
  "importLog (loader_log e s) = importLog s"
  "suspended (loader_log e s) = suspended s"
  "nextPromise (loader_log e s) = nextPromise s"
  "moduleCache (loader_log e s) = moduleCache s"
  by (simp_all add: loader_log_def)

lemma retriesOf_loader_log [simp]: "retriesOf n (loader_log e s) = retriesOf n s"
  by (simp add: retriesOf_def)

lemma loader_ok_log [simp]: "loader_ok (loader_log e s) = loader_ok s"
  by (simp add: loader_ok_def)

lemma newLoader_ok: "loader_ok newLoader"
  by (simp add: loader_ok_def newLoader_def)

lemma start_ok:
  assumes "loader_ok s" and "loadedModules s n = None"
    and "\<not> (n \<in> failedLoads s \<and> retriesOf n s \<ge> MAX_RETRIES)"
  shows "loader_ok (s\<lparr>nextPromise := Suc (nextPromise s),
                      importLog := importLog s @ [(nextPromise s, n)],
                      pendingLoads := (pendingLoads s)(n \<mapsto> nextPromise s),
                      suspended := suspended s @ [(nextPromise s, n)]\<rparr>)"
  using assms unfolding loader_ok_def retriesOf_def by auto

lemma loadModule_ok: "loader_ok s \<Longrightarrow> loader_ok (snd (loadModule n c s))"
proof -
  assume ok: "loader_ok s"
  show ?thesis
  proof (cases "loadedModules s n")
    case (Some m)
    with ok show ?thesis by (simp add: loadModule_def)
  next
    case None
    note ld = this
    show ?thesis
    proof (cases "pendingLoads s n")
      case (Some p)
      with ok ld show ?thesis by (simp add: loadModule_def)
    next
      case None
      show ?thesis
      proof (cases "c \<and> \<not> (n \<in> failedLoads s \<and> retriesOf n s \<ge> MAX_RETRIES)")
        case True
        then have go: "\<not> (n \<in> failedLoads s \<and> retriesOf n s \<ge> MAX_RETRIES)" by simp
        from start_ok[OF ok ld go] True ld None show ?thesis
          by (auto simp: loadModule_def dynamicImport_def)
      next
        case False
        with ok ld None show ?thesis by (auto simp: loadModule_def)
      qed
    qed
  qed
qed

lemma forget_failure_ok: "loader_ok s \<Longrightarrow> loader_ok (s\<lparr>failedLoads := failedLoads s - {n}\<rparr>)"
  unfolding loader_ok_def retriesOf_def by simp

lemma retryModule_ok: "loader_ok s \<Longrightarrow> loader_ok (snd (retryModule n s))"
  by (simp add: retryModule_def loadModule_ok forget_failure_ok)

lemma resume_failure_ok:
  assumes "loader_ok s" and "loadedModules s n = None"
  shows "loader_ok (snd (resumeLoad p n (Inl err) s))"
  using assms unfolding loader_ok_def retriesOf_def resumeLoad_def Let_def loader_log_def
  by auto

lemma resume_success_ok:
  assumes "loader_ok s" and "moduleCache s n = Some m" and "n \<in> set moduleMap"
  shows "loader_ok (snd (resumeLoad p n (Inr m) s))"
  using assms unfolding loader_ok_def retriesOf_def resumeLoad_def Let_def loader_log_def
  by auto

lemma remember_ok:
  assumes "loader_ok s" and "moduleCache s n = None \<or> moduleCache s n = Some m"
  shows "loader_ok (s\<lparr>moduleCache := (moduleCache s)(n \<mapsto> m)\<rparr>)"
  using assms unfolding loader_ok_def retriesOf_def by auto

lemma settle_ok:
  assumes ok: "loader_ok s"
  shows "loader_ok (snd (resumeLoad p n (hostOutcome n outcome s)
                          (hostRemember n (hostOutcome n outcome s) s)))"
proof (cases "hostOutcome n outcome s")
  case (Inl err)
  have "loadedModules s n = None"
  proof (cases "loadedModules s n")
    case (Some m)
    with ok have "moduleCache s n = Some m" "n \<in> set moduleMap" by (auto simp: loader_ok_def)
    with Inl show ?thesis by (simp add: hostOutcome_def)
  qed simp
  from resume_failure_ok[OF ok this] Inl show ?thesis by (simp add: hostRemember_def)
next
  case (Inr m)
  then have k: "n \<in> set moduleMap" by (auto simp: hostOutcome_def split: if_splits)
  from Inr have c: "moduleCache s n = None \<or> moduleCache s n = Some m"
    by (auto simp: hostOutcome_def split: if_splits option.splits)
  let ?s1 = "s\<lparr>moduleCache := (moduleCache s)(n \<mapsto> m)\<rparr>"
  have "loader_ok ?s1" by (rule remember_ok[OF ok c])
  moreover have "moduleCache ?s1 n = Some m" by simp
  ultimately have "loader_ok (snd (resumeLoad p n (Inr m) ?s1))" using k by (rule resume_success_ok)
  with Inr show ?thesis by (simp add: hostRemember_def)
qed

lemma cleanup_ok: "loader_ok s \<Longrightarrow> loader_ok (cleanup s)"
  unfolding cleanup_def loader_ok_def retriesOf_def loader_log_def by simp

lemma loader_step_ok: "loader_ok s \<Longrightarrow> loader_ok (loader_step s ev)"
  by (cases ev) (simp_all add: loadModule_ok retryModule_ok settle_ok cleanup_ok split: option.splits)

lemma foldl_loader_ok: "loader_ok s \<Longrightarrow> loader_ok (foldl loader_step s evs)"
  by (induction evs arbitrary: s) (simp_all add: loader_step_ok)

lemma loader_run_ok: "loader_ok (loader_run evs)"
  unfolding loader_run_def by (rule foldl_loader_ok[OF newLoader_ok])







lemmas loader_eval =
  loader_run_def newLoader_def loadModule_def dynamicImport_def resumeLoad_def retryModule_def
  cleanup_def loader_log_def retriesOf_def moduleMap_def MAX_RETRIES_def Let_def
  hostOutcome_def hostRemember_def


lemma loadModule_exhausted:
  assumes "loader_ok s" and "moduleName \<in> failedLoads s"
    and "MAX_RETRIES \<le> retriesOf moduleName s"
  shows "loadModule moduleName True s =
           (Null, loader_log (Log WARN (''Module '' @ moduleName @ '' failed too many times, skipping'')
                                None) s)"
proof -
  from assms have np: "pendingLoads s moduleName = None"
    by (cases "pendingLoads s moduleName") (auto simp: loader_ok_def)
  from assms(1,2) have nl: "loadedModules s moduleName = None" by (simp add: loader_ok_def)
  from assms(2,3) np nl show ?thesis by (simp add: loadModule_def)
qed

lemma loadEach_exhausted:
  assumes "loader_ok s"
    and "\<forall>m \<in> set ms. m \<in> failedLoads s \<and> MAX_RETRIES \<le> retriesOf m s"
  shows "fst (loadEach ms s) = replicate (length ms) Null \<and>
         importLog (snd (loadEach ms s)) = importLog s"
  using assms
proof (induction ms arbitrary: s)
  case Nil
  then show ?case by simp
next
  case (Cons m ms)
  from Cons.prems have "loadModule m True s =
      (Null, loader_log (Log WARN (''Module '' @ m @ '' failed too many times, skipping'') None) s)"
    by (intro loadModule_exhausted) simp_all
  then obtain s1 where lm: "loadModule m True s = (Null, s1)"
    and s1: "s1 = loader_log (Log WARN (''Module '' @ m @ '' failed too many times, skipping'') None) s"
    by blast
  have ok1: "loader_ok s1" using Cons.prems(1) by (simp add: s1)
  have ex1: "\<forall>k \<in> set ms. k \<in> failedLoads s1 \<and> MAX_RETRIES \<le> retriesOf k s1"
    using Cons.prems(2) by (simp add: s1)
  have il: "importLog s1 = importLog s" by (simp add: s1)
  obtain rs s2 where le: "loadEach ms s1 = (rs, s2)" by (cases "loadEach ms s1")
  from Cons.IH[OF ok1 ex1] le il have "rs = replicate (length ms) Null" "importLog s2 = importLog s"
    by simp_all
  then show ?case by (simp add: lm le)
qed

text \<open>
  Claim C3. In every state the loader can reach, for a module that is in \<open>failedLoads\<close>
  and whose retry count has reached \<open>MAX_RETRIES\<close>, a plain call of \<open>loadModule\<close>
  returns \<open>null\<close> and does not invoke \<open>dynamicImport\<close>, hence no importer of the registry.
  The same holds for the batches of plain calls that the route, viewport, interaction and
  preload paths make (\<open>loadEach\<close>) when every module of the batch is in that condition.
\<close>

theorem exhausted_module_skipped:
  assumes "moduleName \<in> failedLoads (loader_run evs)"
    and "MAX_RETRIES \<le> retriesOf moduleName (loader_run evs)"
  shows "fst (loadModule moduleName True (loader_run evs)) = Null \<and>
         importLog (snd (loadModule moduleName True (loader_run evs))) = importLog (loader_run evs) \<and>
         importerCalls (snd (loadModule moduleName True (loader_run evs)))
           = importerCalls (loader_run evs) \<and>
         ((\<forall>m \<in> set ms. m \<in> failedLoads (loader_run evs) \<and>
                          MAX_RETRIES \<le> retriesOf m (loader_run evs)) \<longrightarrow>
            fst (loadEach ms (loader_run evs)) = replicate (length ms) Null \<and>
            importLog (snd (loadEach ms (loader_run evs))) = importLog (loader_run evs))"
proof -
  let ?s = "loader_run evs"
  have ok: "loader_ok ?s" by (rule loader_run_ok)
  note r = loadModule_exhausted[OF ok assms]
  have one: "fst (loadModule moduleName True ?s) = Null"
    "importLog (snd (loadModule moduleName True ?s)) = importLog ?s"
    "importerCalls (snd (loadModule moduleName True ?s)) = importerCalls ?s"
    by (simp_all add: r importerCalls_def)
  have batch: "(\<forall>m \<in> set ms. m \<in> failedLoads ?s \<and> MAX_RETRIES \<le> retriesOf m ?s) \<longrightarrow>
            fst (loadEach ms ?s) = replicate (length ms) Null \<and>
            importLog (snd (loadEach ms ?s)) = importLog ?s"
    using loadEach_exhausted[OF ok] by blast
  from one batch show ?thesis by blast
qed

text \<open>
  Three failed loads of \<open>darkMode\<close>: the fourth call returns \<open>null\<close> without an import,
  and so does the interaction path \<open>dark-mode-toggle\<close>.
\<close>

theorem exhausted_module_skipped_witness:
  "''darkMode'' \<in> failedLoads (loader_run failingEvents) \<and>
   MAX_RETRIES \<le> retriesOf ''darkMode'' (loader_run failingEvents) \<and>
   fst (loadModule ''darkMode'' True (loader_run failingEvents)) = Null \<and>
   map snd (importLog (snd (loadModule ''darkMode'' True (loader_run failingEvents))))
     = [''darkMode'', ''darkMode'', ''darkMode''] \<and>
   fst (loadOnInteraction ''dark-mode-toggle'' (loader_run failingEvents)) = [Null] \<and>
   map snd (importLog (snd (loadOnInteraction ''dark-mode-toggle'' (loader_run failingEvents))))
     = [''darkMode'', ''darkMode'', ''darkMode'']"
proof -
  have a: "''darkMode'' \<in> failedLoads (loader_run failingEvents)"
    by (simp add: failingEvents_def loader_eval)
  have b: "MAX_RETRIES \<le> retriesOf ''darkMode'' (loader_run failingEvents)"
    by (simp add: failingEvents_def loader_eval)
  have d: "map snd (importLog (loader_run failingEvents)) = [''darkMode'', ''darkMode'', ''darkMode'']"
    by (simp add: failingEvents_def loader_eval)
  have ia: "interactionModules ''dark-mode-toggle'' = [''darkMode'']"
    by (simp add: interactionModules_def)
  note t = exhausted_module_skipped[OF a b, of "[''darkMode'']"]
  from t have r: "fst (loadModule ''darkMode'' True (loader_run failingEvents)) = Null" by blast
  from t d have i: "map snd (importLog (snd (loadModule ''darkMode'' True (loader_run failingEvents))))
     = [''darkMode'', ''darkMode'', ''darkMode'']" by simp
  from t a b have lb: "fst (loadEach [''darkMode''] (loader_run failingEvents)) = replicate (length [''darkMode'']) Null"
    and li: "importLog (snd (loadEach [''darkMode''] (loader_run failingEvents))) = importLog (loader_run failingEvents)"
    by simp_all
  from lb have r2: "fst (loadOnInteraction ''dark-mode-toggle'' (loader_run failingEvents)) = [Null]"
    by (simp add: loadOnInteraction_def ia)
  from li d have i2: "map snd (importLog (snd (loadOnInteraction ''dark-mode-toggle'' (loader_run failingEvents))))
     = [''darkMode'', ''darkMode'', ''darkMode'']"
    by (simp add: loadOnInteraction_def ia)
  from a b r i r2 i2 show ?thesis by blast
qed

text \<open>
  Claim C7. Calls of \<open>loadModule\<close>, \<open>retryModule\<close> and \<open>cleanup\<close> leave \<open>retryCount\<close> as it
  is; a load that fails adds one to the count of its module and a load that succeeds
  deletes it. \<open>retryModule\<close> on a failed module below the maximum is \<open>loadModule\<close> after
  removing the module from \<open>failedLoads\<close> only; on a module that is not failed it is
  \<open>loadModule\<close>.
\<close>

theorem retryCount_changes:
  "retryCount (snd (loadModule n c s)) = retryCount s \<and>
   retryCount (snd (retryModule n s)) = retryCount s \<and>
   retryCount (cleanup s) = retryCount s \<and>
   retryCount (snd (resumeLoad p n (Inl err) s)) = (retryCount s)(n \<mapsto> retriesOf n s + 1) \<and>
   retryCount (snd (resumeLoad p n (Inr m) s)) = (retryCount s)(n := None) \<and>
   (n \<in> failedLoads s \<and> retriesOf n s < MAX_RETRIES \<longrightarrow>
      retryModule n s = loadModule n True (s\<lparr>failedLoads := failedLoads s - {n}\<rparr>)) \<and>
   (n \<notin> failedLoads s \<longrightarrow> retryModule n s = loadModule n True s)"
proof -
  have l: "\<And>s. retryCount (snd (loadModule n c s)) = retryCount s"
    by (simp add: loadModule_def dynamicImport_def split: option.splits)
  have l': "\<And>s. retryCount (snd (loadModule n True s)) = retryCount s"
    by (simp add: loadModule_def dynamicImport_def split: option.splits)
  have r: "retryCount (snd (retryModule n s)) = retryCount s"
    by (simp add: retryModule_def l')
  have cl: "retryCount (cleanup s) = retryCount s" by (simp add: cleanup_def)
  have f: "retryCount (snd (resumeLoad p n (Inl err) s)) = (retryCount s)(n \<mapsto> retriesOf n s + 1)"
    by (simp add: resumeLoad_def Let_def retriesOf_def)
  have g: "retryCount (snd (resumeLoad p n (Inr m) s)) = (retryCount s)(n := None)"
    by (simp add: resumeLoad_def Let_def)
  have h: "n \<in> failedLoads s \<and> retriesOf n s < MAX_RETRIES \<longrightarrow>
      retryModule n s = loadModule n True (s\<lparr>failedLoads := failedLoads s - {n}\<rparr>)"
    by (simp add: retryModule_def)
  have k: "n \<notin> failedLoads s \<longrightarrow> retryModule n s = loadModule n True s"
    by (simp add: retryModule_def)
  from l r cl f g h k show ?thesis by blast
qed

text \<open>A retry of \<open>blog\<close> after one failure keeps the count at 1 until the retry settles.\<close>

theorem retryCount_changes_witness:
  "''blog'' \<in> failedLoads (loader_run blogFailedOnce) \<and>
   retryCount (loader_run blogFailedOnce) ''blog'' = Some 1 \<and>
   fst (retryModule ''blog'' (loader_run blogFailedOnce)) = Awaiting 1 \<and>
   ''blog'' \<notin> failedLoads (snd (retryModule ''blog'' (loader_run blogFailedOnce))) \<and>
   retryCount (snd (retryModule ''blog'' (loader_run blogFailedOnce))) ''blog'' = Some 1 \<and>
   retryCount (snd (resumeLoad 1 ''blog'' (Inl (Error ''network''))
                      (snd (retryModule ''blog'' (loader_run blogFailedOnce))))) ''blog'' = Some 2 \<and>
   retryCount (snd (resumeLoad 1 ''blog'' (Inr (VRef 4))
                      (snd (retryModule ''blog'' (loader_run blogFailedOnce))))) ''blog'' = None \<and>
   retryModule ''blog'' newLoader = loadModule ''blog'' True newLoader"
proof -
  let ?s = "loader_run blogFailedOnce"
  have a: "''blog'' \<in> failedLoads ?s" "retryCount ?s ''blog'' = Some 1" "retriesOf ''blog'' ?s = 1"
    by (simp_all add: blogFailedOnce_def loader_eval)
  have lt: "retriesOf ''blog'' ?s < MAX_RETRIES" by (simp add: a MAX_RETRIES_def)
  have b: "fst (loadModule ''blog'' True (?s\<lparr>failedLoads := failedLoads ?s - {''blog''}\<rparr>)) = Awaiting 1"
    "failedLoads (snd (loadModule ''blog'' True (?s\<lparr>failedLoads := failedLoads ?s - {''blog''}\<rparr>)))
       = failedLoads ?s - {''blog''}"
    by (simp_all add: blogFailedOnce_def loader_eval)
  have e: "''blog'' \<notin> failedLoads newLoader" by (simp add: newLoader_def)
  note t1 = retryCount_changes[of "''blog''" True ?s 1 "Error ''network''" "VRef 4"]
  note t2 = retryCount_changes[of "''blog''" True "snd (retryModule ''blog'' ?s)" 1 "Error ''network''" "VRef 4"]
  note t3 = retryCount_changes[of "''blog''" True newLoader 1 "Error ''network''" "VRef 4"]
  from t1 a lt have rm: "retryModule ''blog'' ?s
      = loadModule ''blog'' True (?s\<lparr>failedLoads := failedLoads ?s - {''blog''}\<rparr>)" by blast
  from t1 have rc: "retryCount (snd (retryModule ''blog'' ?s)) = retryCount ?s" by blast
  then have ro: "retriesOf ''blog'' (snd (retryModule ''blog'' ?s)) = 1"
    using a by (simp add: retriesOf_def)
  from t2 have
    f: "retryCount (snd (resumeLoad 1 ''blog'' (Inl (Error ''network'')) (snd (retryModule ''blog'' ?s))))
         = (retryCount (snd (retryModule ''blog'' ?s)))(''blog'' \<mapsto> retriesOf ''blog'' (snd (retryModule ''blog'' ?s)) + 1)"
    and g: "retryCount (snd (resumeLoad 1 ''blog'' (Inr (VRef 4)) (snd (retryModule ''blog'' ?s))))
         = (retryCount (snd (retryModule ''blog'' ?s)))(''blog'' := None)"
    by blast+
  from t3 e have n: "retryModule ''blog'' newLoader = loadModule ''blog'' True newLoader" by blast
  have c3: "fst (retryModule ''blog'' ?s) = Awaiting 1" using b(1) by (simp add: rm)
  have c4: "''blog'' \<notin> failedLoads (snd (retryModule ''blog'' ?s))" using b(2) by (simp add: rm)
  have c5: "retryCount (snd (retryModule ''blog'' ?s)) ''blog'' = Some 1" using rc a(2) by simp
  have c6: "retryCount (snd (resumeLoad 1 ''blog'' (Inl (Error ''network''))
                      (snd (retryModule ''blog'' ?s)))) ''blog'' = Some 2"
    using f ro by simp
  have c7: "retryCount (snd (resumeLoad 1 ''blog'' (Inr (VRef 4))
                      (snd (retryModule ''blog'' ?s)))) ''blog'' = None"
    using g by simp
  from a(1) a(2) c3 c4 c5 c6 c7 n show ?thesis by blast
qed

end
